theory Spec2Isabelle
  imports Main
begin

section \<open>Python values used by the crawler\<close>

text \<open>
  A Python \<^verbatim>\<open>str\<close> is a sequence of Unicode code points. The bullet that
  \<^verbatim>\<open>clean_cell_content\<close> removes is U+2022, which does not fit an 8-bit
  \<^typ>\<open>char\<close>, so a string is modelled as the list of its code points.
  \<open>ascii\<close> embeds an ASCII literal.
\<close>

type_synonym pystr = "nat list"

definition ascii :: "string \<Rightarrow> pystr" where
  "ascii s = map of_char s"

datatype error =
    RequestException
  | ConnectionError
  | ValueError
  | IndexError
  | KeyError
  | TypeError
  | AttributeError
  | AssertionError

text \<open>
  \<^verbatim>\<open>str.strip()\<close> without argument removes the code points for which
  \<^verbatim>\<open>str.isspace\<close> holds, from both ends.
\<close>

definition py_isspace :: "nat \<Rightarrow> bool" where
  "py_isspace c \<longleftrightarrow>
     (9 \<le> c \<and> c \<le> 13) \<or> (28 \<le> c \<and> c \<le> 32) \<or> c = 133 \<or> c = 160 \<or> c = 5760 \<or>
     (8192 \<le> c \<and> c \<le> 8202) \<or> c = 8232 \<or> c = 8233 \<or> c = 8239 \<or> c = 8287 \<or> c = 12288"

definition py_strip :: "pystr \<Rightarrow> pystr" where
  "py_strip s = rev (dropWhile py_isspace (rev (dropWhile py_isspace s)))"

text \<open>\<^verbatim>\<open>s.replace(c, '')\<close> for a single code point \<open>c\<close>.\<close>

definition py_remove :: "nat \<Rightarrow> pystr \<Rightarrow> pystr" where
  "py_remove c s = filter (\<lambda>x. x \<noteq> c) s"

text \<open>
  \<^verbatim>\<open>s.split(sep)\<close> with an explicit separator: the pieces between the leftmost
  non-overlapping occurrences of \<open>sep\<close>; an empty separator raises ValueError.
\<close>

function py_split_from :: "pystr \<Rightarrow> pystr \<Rightarrow> pystr \<Rightarrow> pystr list" where
  "py_split_from sep cur s =
     (if sep \<noteq> [] \<and> take (length sep) s = sep
      then rev cur # py_split_from sep [] (drop (length sep) s)
      else (case s of
              [] \<Rightarrow> [rev cur]
            | x # xs \<Rightarrow> py_split_from sep (x # cur) xs))"
  by pat_completeness auto
termination
proof (relation "measure (\<lambda>(sep, cur, s). length s)")
  show "wf (measure (\<lambda>(sep, cur, s). length s))" by simp
next
  fix sep cur s :: pystr
  assume a: "sep \<noteq> [] \<and> take (length sep) s = sep"
  then have "s \<noteq> []" by auto
  with a show "((sep, [], drop (length sep) s), (sep, cur, s)) \<in> measure (\<lambda>(sep, cur, s). length s)"
    by simp
next
  fix sep cur s :: pystr and x xs
  assume "s = x # xs"
  then show "((sep, x # cur, xs), (sep, cur, s)) \<in> measure (\<lambda>(sep, cur, s). length s)"
    by simp
qed

declare py_split_from.simps [simp del]

definition py_split :: "pystr \<Rightarrow> pystr \<Rightarrow> error + pystr list" where
  "py_split sep s = (if sep = [] then Inl ValueError else Inr (py_split_from sep [] s))"

text \<open>Python list indexing with a non-negative constant index.\<close>

definition py_index :: "'a list \<Rightarrow> nat \<Rightarrow> error + 'a" where
  "py_index xs i = (if i < length xs then Inr (xs ! i) else Inl IndexError)"

text \<open>The decimal text of an integer, as an f-string formats it.\<close>

function digits10 :: "nat \<Rightarrow> pystr" where
  "digits10 n = (if n < 10 then [48 + n] else digits10 (n div 10) @ [48 + n mod 10])"
  by pat_completeness auto
termination
  by (relation "measure id") auto

declare digits10.simps [simp del]

definition py_str_int :: "int \<Rightarrow> pystr" where
  "py_str_int i = (if i < 0 then 45 # digits10 (nat (- i)) else digits10 (nat i))"

section \<open>The parsed document\<close>

text \<open>
  The HTML parser is a library; the model starts from the tree it returns, reduced to
  what the crawler reads: of a cell its text and the attributes of its first \<^verbatim>\<open>a\<close>
  descendant, of a row its \<^verbatim>\<open>th\<close> and \<^verbatim>\<open>td\<close> cells, of a page the rows of the
  element with id \<^verbatim>\<open>results\<close> and the text of the first \<^verbatim>\<open>span\<close> of class
  \<^verbatim>\<open>font-18\<close>.
\<close>

record anchor =
  href :: "pystr option"

record cell =
  cell_text :: pystr
  cell_a :: "anchor option"

record row =
  th_cells :: "cell list"
  td_cells :: "cell list"

record page =
  results_table :: "row list option"
  font18_span :: "pystr option"

section \<open>Module-level functions of crawler.py\<close>

definition bullet :: nat where
  "bullet = 8226"

definition clean_text :: "pystr \<Rightarrow> pystr" where
  "clean_text t = py_strip (py_remove bullet t)"

definition clean_cell_content :: "cell \<Rightarrow> pystr" where
  "clean_cell_content c = clean_text (cell_text c)"

text \<open>
  \<^verbatim>\<open>headers[0] = ...\<close> and \<^verbatim>\<open>headers[1] = ...\<close> raise IndexError on a list that
  is too short.
\<close>

definition parse_results_header :: "row \<Rightarrow> error + pystr list" where
  "parse_results_header header_row =
     (let headers = map clean_cell_content (th_cells header_row) in
      if length headers < 1 then Inl IndexError
      else let headers = headers[0 := ascii ''Result_num''] in
      if length headers < 2 then Inl IndexError
      else Inr (headers[1 := ascii ''Doc_type'']))"

definition get_result_identifier :: "row \<Rightarrow> error + pystr" where
  "get_result_identifier results_row =
     (case py_index (td_cells results_row) 1 of
        Inl e \<Rightarrow> Inl e
      | Inr td \<Rightarrow>
          (case cell_a td of
             None \<Rightarrow> Inl TypeError
           | Some link_cell \<Rightarrow>
               (case href link_cell of
                  None \<Rightarrow> Inl KeyError
                | Some url \<Rightarrow>
                    (case py_split (ascii ''?'') url of
                       Inl e \<Rightarrow> Inl e
                     | Inr parts \<Rightarrow>
                         (case py_index parts 0 of
                            Inl e \<Rightarrow> Inl e
                          | Inr path \<Rightarrow>
                              (case py_split (ascii ''/'') path of
                                 Inl e \<Rightarrow> Inl e
                               | Inr comps \<Rightarrow> py_index comps 3))))))"

text \<open>
  Sequencing of calls that may raise: the first error ends the computation.
\<close>

definition err_bind :: "error + 'a \<Rightarrow> ('a \<Rightarrow> error + 'b) \<Rightarrow> error + 'b" where
  "err_bind m f = (case m of Inl e \<Rightarrow> Inl e | Inr v \<Rightarrow> f v)"

text \<open>A list comprehension whose element expression may raise.\<close>

fun map_err :: "('a \<Rightarrow> error + 'b) \<Rightarrow> 'a list \<Rightarrow> error + 'b list" where
  "map_err f [] = Inr []"
| "map_err f (x # xs) =
     (case f x of
        Inl e \<Rightarrow> Inl e
      | Inr y \<Rightarrow> (case map_err f xs of Inl e \<Rightarrow> Inl e | Inr ys \<Rightarrow> Inr (y # ys)))"

text \<open>\<^verbatim>\<open>d[k]\<close> on a dict raises KeyError when the key is absent.\<close>

definition py_getitem :: "('k \<rightharpoonup> 'v) \<Rightarrow> 'k \<Rightarrow> error + 'v" where
  "py_getitem d k = (case d k of None \<Rightarrow> Inl KeyError | Some v \<Rightarrow> Inr v)"

section \<open>The network\<close>

text \<open>
  A server answers the \<open>i\<close>-th request of a run, for a URL, with a response, or the
  transport fails (\<open>None\<close>) and \<^verbatim>\<open>requests.get\<close> raises. The list of URLs requested
  so far is the state that \<^verbatim>\<open>get_wait_url\<close> changes. Its sleep takes time and
  changes nothing else, so it has no counterpart here. The content of a response stands
  for the tree the HTML parser builds of the body.
\<close>

record response =
  status_code :: int
  content :: page

type_synonym server = "nat \<Rightarrow> pystr \<Rightarrow> response option"

definition get_wait_url :: "server \<Rightarrow> pystr list \<Rightarrow> pystr \<Rightarrow> pystr list \<times> (error + response)" where
  "get_wait_url srv log url =
     (log @ [url],
      case srv (length log) url of None \<Rightarrow> Inl ConnectionError | Some response \<Rightarrow> Inr response)"

definition get_results_page :: "server \<Rightarrow> pystr list \<Rightarrow> pystr \<Rightarrow> pystr list \<times> (error + page)" where
  "get_results_page srv log results_url =
     (case get_wait_url srv log results_url of
        (log', Inl e) \<Rightarrow> (log', Inl e)
      | (log', Inr response) \<Rightarrow>
          if status_code response \<noteq> 200 then (log', Inl RequestException)
          else (log', Inr (content response)))"

section \<open>EMLODoc\<close>

record emlo_doc =
  doc_collection_name :: "pystr option"
  doc_id :: "pystr option"
  result_num :: "int option"
  doc_type :: "pystr option"
  date :: "pystr option"
  author :: "pystr option"
  origin :: "pystr option"
  addressee :: "pystr option"
  destination :: "pystr option"
  repository :: "pystr option"

definition EMLODoc_init :: "pystr option \<Rightarrow> emlo_doc" where
  "EMLODoc_init cn =
     \<lparr>doc_collection_name = cn, doc_id = None, result_num = None, doc_type = None,
      date = None, author = None, origin = None, addressee = None, destination = None,
      repository = None\<rparr>"

text \<open>
  \<^verbatim>\<open>int(text)\<close> is Python's own parser (signs, underscores, every Unicode decimal
  digit, surrounding whitespace). It is a parameter \<open>py_int\<close> of the model: \<open>None\<close>
  is the ValueError of a text that is no integer.
\<close>

definition set_properties ::
  "(pystr \<Rightarrow> int option) \<Rightarrow> emlo_doc \<Rightarrow> (pystr \<rightharpoonup> pystr) \<Rightarrow> error + emlo_doc" where
  "set_properties py_int self doc =
     err_bind (py_getitem doc (ascii ''Result_num'')) (\<lambda>num_text.
     case py_int num_text of
       None \<Rightarrow> Inl ValueError
     | Some num \<Rightarrow>
     err_bind (py_getitem doc (ascii ''doc_id'')) (\<lambda>v_id.
     err_bind (py_getitem doc (ascii ''Doc_type'')) (\<lambda>v_type.
     err_bind (py_getitem doc (ascii ''Date'')) (\<lambda>v_date.
     err_bind (py_getitem doc (ascii ''Author'')) (\<lambda>v_author.
     err_bind (py_getitem doc (ascii ''Origin'')) (\<lambda>v_origin.
     err_bind (py_getitem doc (ascii ''Addressee'')) (\<lambda>v_addressee.
     err_bind (py_getitem doc (ascii ''Destination'')) (\<lambda>v_destination.
     err_bind (py_getitem doc (ascii ''Repositories & Versions'')) (\<lambda>v_repository.
     Inr (self\<lparr>result_num := Some num, doc_id := Some v_id, doc_type := Some v_type,
               date := Some v_date, author := Some v_author, origin := Some v_origin,
               addressee := Some v_addressee, destination := Some v_destination,
               repository := Some v_repository\<rparr>))))))))))"

section \<open>EMLOCrawler\<close>

record crawler =
  base_url :: pystr
  collection_name :: "pystr option"
  search_name :: "pystr option"

definition EMLOCrawler_init :: crawler where
  "EMLOCrawler_init =
     \<lparr>base_url = ascii ''http://emlo.bodleian.ox.ac.uk/forms/advanced'',
      collection_name = None, search_name = None\<rparr>"

definition set_collection :: "crawler \<Rightarrow> pystr \<Rightarrow> pystr \<Rightarrow> crawler" where
  "set_collection self cn sn = self\<lparr>collection_name := Some cn, search_name := Some sn\<rparr>"

definition assert_collection_set :: "crawler \<Rightarrow> error + unit" where
  "assert_collection_set self =
     (if collection_name self = None then Inl AssertionError
      else if search_name self = None then Inl AssertionError
      else Inr ())"

text \<open>After the assertion the search name is a string; its \<open>None\<close> case is not reached.\<close>

definition make_results_page_url :: "crawler \<Rightarrow> int \<Rightarrow> error + pystr" where
  "make_results_page_url self start_num =
     err_bind (assert_collection_set self) (\<lambda>_.
     case search_name self of
       None \<Rightarrow> Inl AssertionError
     | Some sn \<Rightarrow>
         Inr (base_url self @ ascii ''?col_cat='' @ sn @ ascii ''&start='' @ py_str_int start_num))"

definition crawler_get_results_page ::
  "server \<Rightarrow> crawler \<Rightarrow> pystr list \<Rightarrow> int \<Rightarrow> pystr list \<times> (error + page)" where
  "crawler_get_results_page srv self log start_num =
     (case assert_collection_set self of
        Inl e \<Rightarrow> (log, Inl e)
      | Inr _ \<Rightarrow>
          (case make_results_page_url self start_num of
             Inl e \<Rightarrow> (log, Inl e)
           | Inr results_url \<Rightarrow> get_results_page srv log results_url))"

text \<open>
  The dict comprehension \<^verbatim>\<open>{header: cells[hi] for hi, header in enumerate(headers)}\<close>:
  a later header of the same name overwrites an earlier one, and a header without a cell
  raises IndexError.
\<close>

fun make_dict ::
  "pystr list \<Rightarrow> pystr list \<Rightarrow> nat \<Rightarrow> (pystr \<rightharpoonup> pystr) \<Rightarrow> error + (pystr \<rightharpoonup> pystr)" where
  "make_dict cells [] hi d = Inr d"
| "make_dict cells (header # headers) hi d =
     (case py_index cells hi of
        Inl e \<Rightarrow> Inl e
      | Inr v \<Rightarrow> make_dict cells headers (Suc hi) (d(header \<mapsto> v)))"

definition make_emlo_doc ::
  "(pystr \<Rightarrow> int option) \<Rightarrow> crawler \<Rightarrow> row \<Rightarrow> pystr list \<Rightarrow> error + emlo_doc" where
  "make_emlo_doc py_int self results_row headers =
     (let cells = map clean_cell_content (td_cells results_row) in
      err_bind (make_dict cells headers 0 Map.empty) (\<lambda>doc.
      err_bind (get_result_identifier results_row) (\<lambda>ident.
      set_properties py_int (EMLODoc_init (collection_name self))
        (doc(ascii ''doc_id'' \<mapsto> ident)))))"

text \<open>
  \<^verbatim>\<open>results_rows.pop(0)\<close> changes the caller's list, so the function returns the
  list as it leaves it, beside its result. Popping from an empty list raises IndexError.
\<close>

definition parse_results_rows ::
  "(pystr \<Rightarrow> int option) \<Rightarrow> crawler \<Rightarrow> row list \<Rightarrow> row list \<times> (error + emlo_doc list)" where
  "parse_results_rows py_int self results_rows =
     (case results_rows of
        [] \<Rightarrow> ([], Inl IndexError)
      | header_row # rest \<Rightarrow>
          (rest,
           err_bind (parse_results_header header_row) (\<lambda>headers.
           map_err (\<lambda>results_row. make_emlo_doc py_int self results_row headers) rest)))"

record results_data =
  total_results :: int
  parsed_results :: "emlo_doc list"

text \<open>
  The \<^verbatim>\<open>except ValueError\<close> clause prints the text and raises the error again, so
  the error leaves the function as it came.
\<close>

definition parse_results_page ::
  "(pystr \<Rightarrow> int option) \<Rightarrow> crawler \<Rightarrow> page \<Rightarrow> error + results_data" where
  "parse_results_page py_int self page_soup =
     (case results_table page_soup of
        None \<Rightarrow> Inl AttributeError
      | Some results_rows \<Rightarrow>
          err_bind (snd (parse_results_rows py_int self results_rows)) (\<lambda>results.
          case font18_span page_soup of
            None \<Rightarrow> Inl AttributeError
          | Some span_text \<Rightarrow>
              err_bind (py_split (ascii '' results'') (py_strip span_text)) (\<lambda>parts.
              err_bind (py_index parts 0) (\<lambda>total_text.
              case py_int total_text of
                None \<Rightarrow> Inl ValueError
              | Some total_num \<Rightarrow>
                  Inr \<lparr>total_results = total_num, parsed_results = results\<rparr>))))"

subsection \<open>The pagination loop of crawl_collection\<close>

text \<open>
  The variables of the loop, and the URLs requested so far. The printed progress lines
  are not modelled.
\<close>

record crawl_state =
  crawl_finished :: bool
  emlo_docs :: "emlo_doc list"
  fetched :: "pystr list"

definition loop_body ::
  "(pystr \<Rightarrow> int option) \<Rightarrow> server \<Rightarrow> crawler \<Rightarrow> crawl_state \<Rightarrow> error + crawl_state" where
  "loop_body py_int srv self s =
     (let start_num = length (emlo_docs s) in
      case crawler_get_results_page srv self (fetched s) (int start_num) of
        (log', Inl e) \<Rightarrow> Inl e
      | (log', Inr page_soup) \<Rightarrow>
          (case parse_results_page py_int self page_soup of
             Inl e \<Rightarrow> Inl e
           | Inr data \<Rightarrow>
               (let docs = emlo_docs s @ parsed_results data in
                Inr \<lparr>crawl_finished =
                       (if int (length docs) \<ge> total_results data then True
                        else crawl_finished s),
                     emlo_docs = docs,
                     fetched = log'\<rparr>)))"

text \<open>
  The \<^verbatim>\<open>while not crawl_finished\<close> loop. Nothing bounds its iterations, so it is a
  partial function: \<open>None\<close> is a run that never returns, \<open>Some (Inl e)\<close> a run that
  an exception ends, \<open>Some (Inr docs)\<close> the returned list.
\<close>

partial_function (option) crawl_while ::
  "(pystr \<Rightarrow> int option) \<Rightarrow> server \<Rightarrow> crawler \<Rightarrow> crawl_state \<Rightarrow> (error + emlo_doc list) option" where
  "crawl_while py_int srv self s =
     (if \<not> crawl_finished s
      then (case loop_body py_int srv self s of
              Inl e \<Rightarrow> Some (Inl e)
            | Inr s' \<Rightarrow> crawl_while py_int srv self s')
      else Some (Inr (emlo_docs s)))"

definition crawl_start :: crawl_state where
  "crawl_start = \<lparr>crawl_finished = False, emlo_docs = [], fetched = []\<rparr>"

definition crawl_collection ::
  "(pystr \<Rightarrow> int option) \<Rightarrow> server \<Rightarrow> crawler \<Rightarrow> (pystr \<rightharpoonup> pystr) \<Rightarrow>
     (error + emlo_doc list) option" where
  "crawl_collection py_int srv self collection_info =
     (case py_getitem collection_info (ascii ''collection_name'') of
        Inl e \<Rightarrow> Some (Inl e)
      | Inr cn \<Rightarrow>
          (case py_getitem collection_info (ascii ''search_name'') of
             Inl e \<Rightarrow> Some (Inl e)
           | Inr sn \<Rightarrow> crawl_while py_int srv (set_collection self cn sn) crawl_start))"

text \<open>
  The same loop cut off after at most \<open>n\<close> iterations: the state the loop is in then.
  It gives the intermediate states of a run a name.
\<close>

fun crawl_iterate ::
  "(pystr \<Rightarrow> int option) \<Rightarrow> server \<Rightarrow> crawler \<Rightarrow> nat \<Rightarrow> crawl_state \<Rightarrow> error + crawl_state" where
  "crawl_iterate py_int srv self 0 s = Inr s"
| "crawl_iterate py_int srv self (Suc n) s =
     (if \<not> crawl_finished s
      then (case loop_body py_int srv self s of
              Inl e \<Rightarrow> Inl e
            | Inr s' \<Rightarrow> crawl_iterate py_int srv self n s')
      else Inr s)"

section \<open>Sample inputs\<close>

definition header_example :: row where
  "header_example =
     \<lparr>th_cells = [\<lparr>cell_text = ascii ''#'', cell_a = None\<rparr>,
                  \<lparr>cell_text = [], cell_a = None\<rparr>,
                  \<lparr>cell_text = 8226 # ascii '' Date '', cell_a = None\<rparr>],
      td_cells = []\<rparr>"

definition row_example :: row where
  "row_example =
     \<lparr>th_cells = [],
      td_cells = [\<lparr>cell_text = ascii ''1'', cell_a = None\<rparr>,
                  \<lparr>cell_text = ascii ''Letter'',
                   cell_a = Some \<lparr>href = Some (ascii ''/path/collection/DOC123/view?x=1'')\<rparr>\<rparr>]\<rparr>"

text \<open>
  A parser of plain ASCII decimal numerals takes the place of \<^verbatim>\<open>int\<close> in the sample
  runs; the theorems hold for every parser.
\<close>

definition sample_int :: "pystr \<Rightarrow> int option" where
  "sample_int t =
     (if t \<noteq> [] \<and> list_all (\<lambda>c. 48 \<le> c \<and> c \<le> 57) t
      then Some (int (fold (\<lambda>c a. 10 * a + (c - 48)) t 0))
      else None)"

definition plain_cell :: "string \<Rightarrow> cell" where
  "plain_cell t = \<lparr>cell_text = ascii t, cell_a = None\<rparr>"

definition sample_header :: row where
  "sample_header =
     \<lparr>th_cells = map plain_cell
        ['''', '''', ''Date'', ''Author'', ''Origin'', ''Addressee'', ''Destination'',
         ''Repositories & Versions''],
      td_cells = []\<rparr>"

definition sample_row :: "string \<Rightarrow> row" where
  "sample_row num =
     \<lparr>th_cells = [],
      td_cells =
        [plain_cell num,
         \<lparr>cell_text = ascii ''Letter'',
          cell_a = Some \<lparr>href = Some (ascii ''/profile/work/w1'')\<rparr>\<rparr>,
         plain_cell ''1600'', plain_cell ''Scaliger'', plain_cell ''Leiden'',
         plain_cell ''Lipsius'', plain_cell ''Leuven'', plain_cell ''UB'']\<rparr>"

definition sample_crawler :: crawler where
  "sample_crawler = set_collection EMLOCrawler_init (ascii ''Scaliger, Joseph Justus'')
     (ascii ''Scaliger%2C+Joseph+Justus'')"

definition sample_doc :: "int \<Rightarrow> emlo_doc" where
  "sample_doc n =
     \<lparr>doc_collection_name = Some (ascii ''Scaliger, Joseph Justus''),
      doc_id = Some (ascii ''w1''), result_num = Some n, doc_type = Some (ascii ''Letter''),
      date = Some (ascii ''1600''), author = Some (ascii ''Scaliger''),
      origin = Some (ascii ''Leiden''), addressee = Some (ascii ''Lipsius''),
      destination = Some (ascii ''Leuven''), repository = Some (ascii ''UB'')\<rparr>"
definition sample_headers :: "pystr list" where
  "sample_headers =
     [ascii ''Result_num'', ascii ''Doc_type'', ascii ''Date'', ascii ''Author'',
      ascii ''Origin'', ascii ''Addressee'', ascii ''Destination'',
      ascii ''Repositories & Versions'']"

definition sample_info :: "pystr \<rightharpoonup> pystr" where
  "sample_info =
     [ascii ''collection_name'' \<mapsto> ascii ''Scaliger, Joseph Justus'',
      ascii ''search_name'' \<mapsto> ascii ''Scaliger%2C+Joseph+Justus'']"

definition sample_page :: "row list \<Rightarrow> string \<Rightarrow> page" where
  "sample_page rows total_text =
     \<lparr>results_table = Some (sample_header # rows), font18_span = Some (ascii total_text)\<rparr>"

text \<open>A server that answers every request with an empty results table and 5 as the total.\<close>

definition stalled_server :: server where
  "stalled_server = (\<lambda>i url. Some \<lparr>status_code = 200, content = sample_page [] ''5 results''\<rparr>)"

text \<open>A server that answers every request with the same two rows and 3 as the total.\<close>

definition overshoot_server :: server where
  "overshoot_server =
     (\<lambda>i url. Some \<lparr>status_code = 200,
                     content = sample_page [sample_row ''1'', sample_row ''2''] ''3 results''\<rparr>)"


definition sample_url :: "int \<Rightarrow> pystr" where
  "sample_url start_num =
     ascii ''http://emlo.bodleian.ox.ac.uk/forms/advanced?col_cat=Scaliger%2C+Joseph+Justus&start=''
       @ py_str_int start_num"

definition first_page_rows :: "row list" where
  "first_page_rows =
     map sample_row [''1'', ''2'', ''3'', ''4'', ''5''] @
     map sample_row [''6'', ''7'', ''8'', ''9'', ''10'']"

definition second_page_rows :: "row list" where
  "second_page_rows = map sample_row [''11'', ''12'']"

text \<open>
  A server for a collection of 12 results in pages of 10: it answers the request for
  offset 0 with rows 1 to 10, the request for offset 10 with rows 11 and 12, and any
  other request with status 404.
\<close>

definition two_page_server :: server where
  "two_page_server =
     (\<lambda>i url.
        if url = sample_url 0 then
          Some \<lparr>status_code = 200, content = sample_page first_page_rows ''12 results''\<rparr>
        else if url = sample_url 10 then
          Some \<lparr>status_code = 200, content = sample_page second_page_rows ''12 results''\<rparr>
        else
          Some \<lparr>status_code = 404,
                content = \<lparr>results_table = None, font18_span = None\<rparr>\<rparr>)"

definition first_page_docs :: "emlo_doc list" where
  "first_page_docs = map sample_doc [1, 2, 3, 4, 5, 6, 7, 8, 9, 10]"

definition second_page_docs :: "emlo_doc list" where
  "second_page_docs = map sample_doc [11, 12]"

text \<open>
  A server whose page has a second data row with the text \<^verbatim>\<open>x\<close> in its first cell.
\<close>

definition bad_row_server :: server where
  "bad_row_server =
     (\<lambda>i url. Some \<lparr>status_code = 200,
                     content = sample_page [sample_row ''1'', sample_row ''x''] ''2 results''\<rparr>)"

text \<open>
  A response with status 201 (Created), one of the 2xx statuses that HTTP counts as
  success, carrying a well-formed results page; and a server that sends it.
\<close>

definition created_response :: response where
  "created_response =
     \<lparr>status_code = 201, content = sample_page [sample_row ''1''] ''1 results''\<rparr>"

definition created_server :: server where
  "created_server = (\<lambda>i url. Some created_response)"

section \<open>Cell cleaning\<close>

lemma py_strip_subseq: "set (py_strip s) \<subseteq> set s"
proof -
  have "set (py_strip s) = set (dropWhile py_isspace (rev (dropWhile py_isspace s)))"
    by (simp add: py_strip_def)
  also have "\<dots> \<subseteq> set (rev (dropWhile py_isspace s))"
    by (rule subsetI) (erule set_dropWhileD)
  also have "\<dots> \<subseteq> set s"
    by (auto dest: set_dropWhileD)
  finally show ?thesis .
qed

lemma dropWhile_fixed: "xs = [] \<or> \<not> P (hd xs) \<Longrightarrow> dropWhile P xs = xs"
  by (cases xs) auto

lemma py_strip_ends:
  "py_strip s = [] \<or> (\<not> py_isspace (hd (py_strip s)) \<and> \<not> py_isspace (last (py_strip s)))"
proof (cases "py_strip s = []")
  case True
  then show ?thesis by simp
next
  case False
  define a where "a = dropWhile py_isspace s"
  define b where "b = dropWhile py_isspace (rev a)"
  have strip: "py_strip s = rev b"
    by (simp add: py_strip_def a_def b_def)
  with False have b: "b \<noteq> []" by simp
  then have hb: "\<not> py_isspace (hd b)"
    unfolding b_def by (rule hd_dropWhile)
  have a: "a \<noteq> []"
  proof
    assume "a = []"
    then have "b = []" by (simp add: b_def)
    with b show False by contradiction
  qed
  then have ha: "\<not> py_isspace (hd a)"
    unfolding a_def by (rule hd_dropWhile)
  have "rev a = takeWhile py_isspace (rev a) @ b"
    by (simp add: b_def)
  then have "rev (rev a) = rev (takeWhile py_isspace (rev a) @ b)"
    by (rule arg_cong)
  then have "a = rev b @ rev (takeWhile py_isspace (rev a))"
    by simp
  then have "hd a = hd (rev b @ rev (takeWhile py_isspace (rev a)))"
    by (rule arg_cong)
  with b have "hd a = hd (rev b)" by simp
  with ha have "\<not> py_isspace (hd (py_strip s))" by (simp add: strip)
  moreover from b hb have "\<not> py_isspace (last (py_strip s))"
    by (simp add: strip last_rev)
  ultimately show ?thesis by simp
qed

lemma py_strip_fixed:
  assumes "t = [] \<or> (\<not> py_isspace (hd t) \<and> \<not> py_isspace (last t))"
  shows "py_strip t = t"
proof (cases "t = []")
  case True
  then show ?thesis by (simp add: py_strip_def)
next
  case False
  with assms have h: "\<not> py_isspace (hd t)" and l: "\<not> py_isspace (last t)" by auto
  from False h have 1: "dropWhile py_isspace t = t" by (simp add: dropWhile_fixed)
  from False l have "\<not> py_isspace (hd (rev t))" by (simp add: hd_rev)
  then have 2: "dropWhile py_isspace (rev t) = rev t" by (simp add: dropWhile_fixed)
  show ?thesis by (simp add: py_strip_def 1 2)
qed

lemma py_strip_idem: "py_strip (py_strip s) = py_strip s"
  by (rule py_strip_fixed) (rule py_strip_ends)

lemma py_remove_absent: "c \<notin> set s \<Longrightarrow> py_remove c s = s"
  by (auto simp: py_remove_def filter_id_conv)

lemma clean_text_no_bullet: "bullet \<notin> set (clean_text s)"
proof
  assume "bullet \<in> set (clean_text s)"
  then have "bullet \<in> set (py_remove bullet s)"
    using py_strip_subseq by (auto simp: clean_text_def)
  then show False by (simp add: py_remove_def)
qed

text \<open>
  C9. Cell cleaning is idempotent: cleaning the text that cleaning returned gives that
  text again, for every string; so a cell whose text is already cleaned is left as it is.
\<close>

theorem clean_cell_content_idempotent:
  "clean_text (clean_text s) = clean_text s \<and>
   clean_cell_content (c\<lparr>cell_text := clean_cell_content c\<rparr>) = clean_cell_content c"
proof -
  have idem: "clean_text (clean_text t) = clean_text t" for t
  proof -
    have "py_remove bullet (clean_text t) = clean_text t"
      by (rule py_remove_absent) (rule clean_text_no_bullet)
    then have "clean_text (clean_text t) = py_strip (clean_text t)"
      by (simp add: clean_text_def)
    also have "\<dots> = clean_text t"
      by (simp add: clean_text_def py_strip_idem)
    finally show ?thesis .
  qed
  show ?thesis by (simp add: clean_cell_content_def idem)
qed

section \<open>The header row\<close>

text \<open>
  C8. For every header row with at least two cells, whatever their texts, the column
  names returned by \<open>parse_results_header\<close> start with \<open>Result_num\<close> and
  \<open>Doc_type\<close>, and the remaining names are the cleaned texts of the remaining cells,
  in order.
\<close>

theorem parse_results_header_forced:
  assumes "2 \<le> length (th_cells header_row)"
  shows "parse_results_header header_row =
           Inr (ascii ''Result_num'' # ascii ''Doc_type'' #
                map clean_cell_content (drop 2 (th_cells header_row)))"
proof -
  from assms obtain a b rest where cells: "th_cells header_row = a # b # rest"
    by (cases "th_cells header_row"; cases "tl (th_cells header_row)") auto
  show ?thesis
    by (simp add: parse_results_header_def cells)
qed

theorem parse_results_header_forced_witness:
  "2 \<le> length (th_cells header_example) \<and>
   parse_results_header header_example =
     Inr [ascii ''Result_num'', ascii ''Doc_type'', ascii ''Date'']"
proof -
  have len: "2 \<le> length (th_cells header_example)"
    by (simp add: header_example_def)
  have "clean_cell_content \<lparr>cell_text = 8226 # ascii '' Date '', cell_a = None\<rparr> = ascii ''Date''"
    by (simp add: clean_cell_content_def clean_text_def py_strip_def py_remove_def bullet_def
        py_isspace_def ascii_def)
  with parse_results_header_forced [OF len] len show ?thesis
    by (simp add: header_example_def)
qed

section \<open>The document identifier\<close>

text \<open>
  Splitting on a single code point: the first piece is the text before the first
  occurrence, the other pieces come from the text after it.
\<close>

lemma py_split_from_single:
  "py_split_from [c] cur s =
     (rev cur @ takeWhile (\<lambda>x. x \<noteq> c) s) #
     (case dropWhile (\<lambda>x. x \<noteq> c) s of [] \<Rightarrow> [] | _ # r \<Rightarrow> py_split_from [c] [] r)"
proof (induction s arbitrary: cur)
  case Nil
  show ?case by (subst py_split_from.simps) simp
next
  case (Cons x xs)
  show ?case
  proof (cases "x = c")
    case True
    then show ?thesis by (subst py_split_from.simps) simp
  next
    case False
    then show ?thesis
      using Cons.IH [of "x # cur"] by (subst py_split_from.simps) simp
  qed
qed

text \<open>
  C7. For every results row whose second cell contains a link with an href,
  \<open>get_result_identifier\<close> returns the component at index 3 of the href cut before
  its first question mark (code point 63) and split on slashes; a path with fewer than
  four components raises IndexError. For the href
  \<^verbatim>\<open>/path/collection/DOC123/view?x=1\<close> the result is \<^verbatim>\<open>DOC123\<close>.
\<close>

theorem get_result_identifier_component:
  assumes "py_index (td_cells results_row) 1 = Inr td"
    and "cell_a td = Some link_cell"
    and "href link_cell = Some url"
  shows "get_result_identifier results_row =
           (let comps = py_split_from (ascii ''/'') [] (takeWhile (\<lambda>x. x \<noteq> 63) url)
            in if 3 < length comps then Inr (comps ! 3) else Inl IndexError) \<and>
         (url = ascii ''/path/collection/DOC123/view?x=1'' \<longrightarrow>
            get_result_identifier results_row = Inr (ascii ''DOC123''))"
proof -
  have q: "ascii ''?'' = [63]" by (simp add: ascii_def)
  have s: "ascii ''/'' \<noteq> []" by (simp add: ascii_def)
  have "py_split (ascii ''?'') url = Inr (py_split_from [63] [] url)"
    by (simp add: py_split_def q)
  moreover have "py_index (py_split_from [63] [] url) 0 = Inr (takeWhile (\<lambda>x. x \<noteq> 63) url)"
    by (subst py_split_from_single) (simp add: py_index_def)
  ultimately have general: "get_result_identifier results_row =
      py_index (py_split_from (ascii ''/'') [] (takeWhile (\<lambda>x. x \<noteq> 63) url)) 3"
    using assms s by (simp add: get_result_identifier_def py_split_def)
  have example: "py_index (py_split_from (ascii ''/'') []
      (takeWhile (\<lambda>x. x \<noteq> 63) (ascii ''/path/collection/DOC123/view?x=1''))) 3
        = Inr (ascii ''DOC123'')"
    by (simp add: py_index_def ascii_def py_split_from.simps)
  from general have "get_result_identifier results_row =
      (let comps = py_split_from (ascii ''/'') [] (takeWhile (\<lambda>x. x \<noteq> 63) url)
       in if 3 < length comps then Inr (comps ! 3) else Inl IndexError)"
    by (simp add: py_index_def Let_def)
  moreover from general example
  have "url = ascii ''/path/collection/DOC123/view?x=1'' \<longrightarrow>
      get_result_identifier results_row = Inr (ascii ''DOC123'')"
    by simp
  ultimately show ?thesis by (rule conjI)
qed

theorem get_result_identifier_component_witness:
  "py_index (td_cells row_example) 1 =
     Inr \<lparr>cell_text = ascii ''Letter'',
          cell_a = Some \<lparr>href = Some (ascii ''/path/collection/DOC123/view?x=1'')\<rparr>\<rparr> \<and>
   get_result_identifier row_example = Inr (ascii ''DOC123'')"
proof -
  let ?url = "ascii ''/path/collection/DOC123/view?x=1''"
  let ?a = "\<lparr>href = Some ?url\<rparr>"
  let ?td = "\<lparr>cell_text = ascii ''Letter'', cell_a = Some ?a\<rparr>"
  have 1: "py_index (td_cells row_example) 1 = Inr ?td"
    by (simp add: row_example_def py_index_def)
  have 2: "cell_a ?td = Some ?a" by simp
  have 3: "href ?a = Some ?url" by simp
  from get_result_identifier_component [OF 1 2 3]
  have "get_result_identifier row_example = Inr (ascii ''DOC123'')" by blast
  with 1 show ?thesis by simp
qed

section \<open>Fetching one page\<close>

lemma get_results_page_eval:
  "get_results_page srv log url =
     (log @ [url],
      case srv (length log) url of
        None \<Rightarrow> Inl ConnectionError
      | Some response \<Rightarrow>
          if status_code response = 200 then Inr (content response) else Inl RequestException)"
  by (simp add: get_results_page_def get_wait_url_def split: option.split)

text \<open>
  C6, as the code has it. When the server answers a request for a URL with a response,
  \<open>get_results_page\<close> returns the parsed page of the response if its status is exactly
  200, and raises RequestException for every other status, the other 2xx statuses
  included; in both cases it has sent exactly one request, the one for that URL, so
  nothing is retried.
\<close>

theorem get_results_page_status:
  assumes "srv (length log) url = Some response"
  shows "get_results_page srv log url =
           (log @ [url],
            if status_code response \<noteq> 200 then Inl RequestException
            else Inr (content response))"
  using assms by (simp add: get_results_page_eval)

theorem get_results_page_status_witness:
  "get_results_page (\<lambda>i u. Some \<lparr>status_code = 404, content = \<lparr>results_table = None, font18_span = None\<rparr>\<rparr>)
      [] (ascii ''http://x/'') = ([ascii ''http://x/''], Inl RequestException) \<and>
   get_results_page (\<lambda>i u. Some \<lparr>status_code = 200, content = \<lparr>results_table = None, font18_span = None\<rparr>\<rparr>)
      [] (ascii ''http://x/'') = ([ascii ''http://x/''], Inr \<lparr>results_table = None, font18_span = None\<rparr>)"
proof -
  let ?pg = "\<lparr>results_table = None, font18_span = None\<rparr>"
  let ?bad = "\<lambda>(i::nat) (u::pystr). Some \<lparr>status_code = 404, content = ?pg\<rparr>"
  let ?good = "\<lambda>(i::nat) (u::pystr). Some \<lparr>status_code = 200, content = ?pg\<rparr>"
  have b: "?bad (length []) (ascii ''http://x/'') = Some \<lparr>status_code = 404, content = ?pg\<rparr>"
    by simp
  have g: "?good (length []) (ascii ''http://x/'') = Some \<lparr>status_code = 200, content = ?pg\<rparr>"
    by simp
  from get_results_page_status [OF b] get_results_page_status [OF g]
  show ?thesis by simp
qed

text \<open>
  The claim C6 as it is stated fails: a response with the success status 201 does not
  give the parsed page but RequestException.
\<close>

theorem get_results_page_success_counterexample:
  "status_code created_response = 201 \<and>
   200 \<le> status_code created_response \<and> status_code created_response < 300 \<and>
   created_server (length ([] :: pystr list)) (sample_url 0) = Some created_response \<and>
   get_results_page created_server [] (sample_url 0) = ([sample_url 0], Inl RequestException) \<and>
   get_results_page created_server [] (sample_url 0) \<noteq>
     ([sample_url 0], Inr (content created_response))"
  by (simp add: get_results_page_eval created_server_def created_response_def)

section \<open>The rows of a results table\<close>

lemma map_err_Inr:
  "map_err f xs = Inr ys \<Longrightarrow> length ys = length xs \<and> (\<forall>i < length xs. f (xs ! i) = Inr (ys ! i))"
proof (induction xs arbitrary: ys)
  case Nil
  then show ?case by simp
next
  case (Cons x xs)
  from Cons.prems obtain y ys' where y: "f x = Inr y" and ys': "map_err f xs = Inr ys'"
    and ys: "ys = y # ys'"
    by (auto split: sum.splits)
  from Cons.IH [OF ys'] have len: "length ys' = length xs"
    and elems: "\<forall>i < length xs. f (xs ! i) = Inr (ys' ! i)" by simp_all
  show ?case
  proof (intro conjI allI impI)
    show "length ys = length (x # xs)" using len ys by simp
  next
    fix i assume "i < length (x # xs)"
    then show "f ((x # xs) ! i) = Inr (ys ! i)"
      using y elems ys by (cases i) simp_all
  qed
qed

lemma map_err_Inl:
  "x \<in> set xs \<Longrightarrow> f x = Inl e \<Longrightarrow> \<exists>e'. map_err f xs = Inl e'"
  by (induction xs) (auto split: sum.splits)

text \<open>
  C10. For every non-empty list of rows, \<open>parse_results_rows\<close> leaves the caller's list
  one element shorter: its first element, the header row, is removed and the other rows
  stay in order. When the call returns, it returns one record for each remaining row, in
  order, each built from its row with the headers of the removed row.
\<close>

theorem parse_results_rows_pops_header:
  assumes "results_rows \<noteq> []"
  shows "fst (parse_results_rows py_int self results_rows) = tl results_rows \<and>
         Suc (length (fst (parse_results_rows py_int self results_rows))) = length results_rows \<and>
         results_rows = hd results_rows # fst (parse_results_rows py_int self results_rows) \<and>
         (\<forall>docs. snd (parse_results_rows py_int self results_rows) = Inr docs \<longrightarrow>
            (\<exists>headers. parse_results_header (hd results_rows) = Inr headers \<and>
               length docs = length (tl results_rows) \<and>
               (\<forall>i < length docs.
                  make_emlo_doc py_int self (tl results_rows ! i) headers = Inr (docs ! i))))"
proof -
  from assms obtain header_row rest where rows: "results_rows = header_row # rest"
    by (cases results_rows) auto
  have left: "fst (parse_results_rows py_int self results_rows) = rest"
    by (simp add: parse_results_rows_def rows)
  have records: "\<exists>headers. parse_results_header header_row = Inr headers \<and>
      length docs = length rest \<and>
      (\<forall>i < length docs. make_emlo_doc py_int self (rest ! i) headers = Inr (docs ! i))"
    if "snd (parse_results_rows py_int self results_rows) = Inr docs" for docs
  proof -
    from that obtain headers where h: "parse_results_header header_row = Inr headers"
      and m: "map_err (\<lambda>results_row. make_emlo_doc py_int self results_row headers) rest = Inr docs"
      by (auto simp: parse_results_rows_def rows err_bind_def split: sum.splits)
    from map_err_Inr [OF m] h show ?thesis by auto
  qed
  from left records show ?thesis by (simp add: rows)
qed

section \<open>Evaluation of the sample inputs\<close>

lemma sample_header_parsed:
  "parse_results_header sample_header = Inr sample_headers"
  by (simp add: parse_results_header_def sample_header_def plain_cell_def clean_cell_content_def
      clean_text_def py_strip_def py_remove_def bullet_def py_isspace_def ascii_def
      sample_headers_def)



lemma clean_ascii:
  "clean_text (ascii ''Letter'') = ascii ''Letter''"
  "clean_text (ascii ''1600'') = ascii ''1600''"
  "clean_text (ascii ''Scaliger'') = ascii ''Scaliger''"
  "clean_text (ascii ''Leiden'') = ascii ''Leiden''"
  "clean_text (ascii ''Lipsius'') = ascii ''Lipsius''"
  "clean_text (ascii ''Leuven'') = ascii ''Leuven''"
  "clean_text (ascii ''UB'') = ascii ''UB''"
  by (simp_all add: clean_text_def py_strip_def py_remove_def bullet_def py_isspace_def ascii_def)

lemma sample_row_ident: "get_result_identifier (sample_row num) = Inr (ascii ''w1'')"
  by (simp add: get_result_identifier_def sample_row_def py_index_def py_split_def ascii_def
      py_split_from.simps)

lemma sample_row_dict:
  "make_dict (map clean_cell_content (td_cells (sample_row num))) sample_headers 0 Map.empty =
     Inr [ascii ''Result_num'' \<mapsto> clean_text (ascii num), ascii ''Doc_type'' \<mapsto> ascii ''Letter'',
          ascii ''Date'' \<mapsto> ascii ''1600'', ascii ''Author'' \<mapsto> ascii ''Scaliger'',
          ascii ''Origin'' \<mapsto> ascii ''Leiden'', ascii ''Addressee'' \<mapsto> ascii ''Lipsius'',
          ascii ''Destination'' \<mapsto> ascii ''Leuven'',
          ascii ''Repositories & Versions'' \<mapsto> ascii ''UB'']"
  by (simp add: sample_row_def sample_headers_def plain_cell_def clean_cell_content_def
      clean_ascii py_index_def)

lemma ascii_inj: "ascii s = ascii t \<longleftrightarrow> s = t"
  by (simp add: ascii_def inj_map_eq_map inj_of_char)

lemma sample_row_doc:
  assumes "py_int (clean_text (ascii num)) = Some n"
  shows "make_emlo_doc py_int sample_crawler (sample_row num) sample_headers = Inr (sample_doc n)"
  using assms
  by (simp add: make_emlo_doc_def sample_row_dict sample_row_ident err_bind_def
      set_properties_def py_getitem_def ascii_inj EMLODoc_init_def sample_doc_def
      sample_crawler_def set_collection_def EMLOCrawler_init_def)

section \<open>One iteration of the loop\<close>

lemma loop_body_Inr:
  assumes "loop_body py_int srv self s = Inr s'"
  shows "\<exists>url response data.
           make_results_page_url self (int (length (emlo_docs s))) = Inr url \<and>
           srv (length (fetched s)) url = Some response \<and>
           status_code response = 200 \<and>
           parse_results_page py_int self (content response) = Inr data \<and>
           emlo_docs s' = emlo_docs s @ parsed_results data \<and>
           fetched s' = fetched s @ [url] \<and>
           crawl_finished s' =
             (total_results data \<le> int (length (emlo_docs s')) \<or> crawl_finished s)"
  using assms
  by (auto simp: loop_body_def crawler_get_results_page_def get_results_page_eval Let_def
      split: sum.splits option.splits if_splits prod.splits)

lemma loop_body_eval:
  assumes "make_results_page_url self (int (length (emlo_docs s))) = Inr url"
    and "srv (length (fetched s)) url = Some response"
    and "status_code response = 200"
    and "parse_results_page py_int self (content response) = Inr data"
  shows "loop_body py_int srv self s =
           Inr \<lparr>crawl_finished =
                  (total_results data \<le> int (length (emlo_docs s @ parsed_results data)) \<or>
                   crawl_finished s),
                emlo_docs = emlo_docs s @ parsed_results data,
                fetched = fetched s @ [url]\<rparr>"
proof -
  from assms(1) have "assert_collection_set self = Inr ()"
    by (auto simp: make_results_page_url_def err_bind_def split: sum.splits)
  with assms show ?thesis
    by (simp add: loop_body_def crawler_get_results_page_def get_results_page_eval Let_def)
qed

section \<open>The loop and its cut-off\<close>

lemma crawl_iterate_finished:
  "crawl_finished s \<Longrightarrow> crawl_iterate py_int srv self n s = Inr s"
  by (cases n) simp_all

lemma crawl_iterate_add:
  "crawl_iterate py_int srv self (m + k) s =
     (case crawl_iterate py_int srv self m s of
        Inl e \<Rightarrow> Inl e
      | Inr s' \<Rightarrow> crawl_iterate py_int srv self k s')"
proof (induction m arbitrary: s)
  case 0
  show ?case by simp
next
  case (Suc m)
  show ?case
  proof (cases "crawl_finished s")
    case True
    then show ?thesis by (simp add: crawl_iterate_finished)
  next
    case False
    then show ?thesis using Suc.IH by (simp split: sum.splits)
  qed
qed

lemma crawl_iterate_Suc_end:
  "crawl_iterate py_int srv self (Suc n) s =
     (case crawl_iterate py_int srv self n s of
        Inl e \<Rightarrow> Inl e
      | Inr s' \<Rightarrow> if crawl_finished s' then Inr s' else loop_body py_int srv self s')"
proof -
  have "crawl_iterate py_int srv self (n + 1) s =
     (case crawl_iterate py_int srv self n s of
        Inl e \<Rightarrow> Inl e
      | Inr s' \<Rightarrow> crawl_iterate py_int srv self 1 s')"
    by (rule crawl_iterate_add)
  then show ?thesis
    by (simp split: sum.splits)
qed


lemma crawl_while_of_iterate:
  "crawl_iterate py_int srv self n s = Inr t \<Longrightarrow> crawl_finished t \<Longrightarrow>
     crawl_while py_int srv self s = Some (Inr (emlo_docs t))"
proof (induction n arbitrary: s)
  case 0
  then show ?case by (subst crawl_while.simps) simp
next
  case (Suc n)
  show ?case
  proof (cases "crawl_finished s")
    case True
    with Suc.prems show ?thesis by (subst crawl_while.simps) simp
  next
    case False
    with Suc.prems obtain s' where b: "loop_body py_int srv self s = Inr s'"
      and it: "crawl_iterate py_int srv self n s' = Inr t"
      by (auto split: sum.splits)
    from Suc.IH [OF it Suc.prems(2)] b False show ?thesis
      by (subst crawl_while.simps) simp
  qed
qed

lemma crawl_while_of_iterate_error:
  "crawl_iterate py_int srv self n s = Inl e \<Longrightarrow> crawl_while py_int srv self s = Some (Inl e)"
proof (induction n arbitrary: s)
  case 0
  then show ?case by simp
next
  case (Suc n)
  show ?case
  proof (cases "loop_body py_int srv self s")
    case (Inl e')
    with Suc.prems show ?thesis
      by (subst crawl_while.simps) (simp split: if_splits)
  next
    case (Inr s')
    with Suc.prems have nf: "\<not> crawl_finished s"
      and it: "crawl_iterate py_int srv self n s' = Inl e"
      by (auto split: if_splits)
    from Suc.IH [OF it] Inr nf show ?thesis
      by (subst crawl_while.simps) simp
  qed
qed

lemma crawl_while_returns:
  assumes "crawl_while py_int srv self s = Some r"
  shows "\<exists>n. case r of
               Inl e \<Rightarrow> crawl_iterate py_int srv self n s = Inl e
             | Inr docs \<Rightarrow> (\<exists>t. crawl_iterate py_int srv self n s = Inr t \<and>
                               crawl_finished t \<and> emlo_docs t = docs)"
proof -
  let ?at = "\<lambda>pi sv se n st r. case r of
               Inl e \<Rightarrow> crawl_iterate pi sv se n st = Inl e
             | Inr docs \<Rightarrow> (\<exists>t. crawl_iterate pi sv se n st = Inr t \<and>
                               crawl_finished t \<and> emlo_docs t = docs)"
  let ?P = "\<lambda>pi sv se st r. \<exists>n. ?at pi sv se n st r"
  show ?thesis
  proof (rule crawl_while.raw_induct [where P = ?P, OF _ assms])
    fix f pi sv se st r
    assume IH: "\<And>pi sv se st r. f pi sv se st = Some r \<Longrightarrow> ?P pi sv se st r"
      and step: "(if \<not> crawl_finished st
                  then case loop_body pi sv se st of
                         Inl e \<Rightarrow> Some (Inl e)
                       | Inr s' \<Rightarrow> f pi sv se s'
                  else Some (Inr (emlo_docs st))) = Some r"
    show "?P pi sv se st r"
    proof (cases "crawl_finished st")
      case True
      with step have "r = Inr (emlo_docs st)" by simp
      with True have "?at pi sv se 0 st r" by simp
      then show ?thesis ..
    next
      case False
      show ?thesis
      proof (cases "loop_body pi sv se st")
        case (Inl e)
        with step False have "r = Inl e" by simp
        with False Inl have "?at pi sv se (Suc 0) st r" by simp
        then show ?thesis ..
      next
        case (Inr s')
        with step False have "f pi sv se s' = Some r" by simp
        from IH [OF this] obtain n where "?at pi sv se n s' r" ..
        with False Inr have "?at pi sv se (Suc n) st r" by (simp split: sum.splits)
        then show ?thesis ..
      qed
    qed
  qed
qed

lemma crawl_while_None_iff:
  "crawl_while py_int srv self s = None \<longleftrightarrow>
     (\<forall>n. \<exists>t. crawl_iterate py_int srv self n s = Inr t \<and> \<not> crawl_finished t)"
proof
  assume none: "crawl_while py_int srv self s = None"
  show "\<forall>n. \<exists>t. crawl_iterate py_int srv self n s = Inr t \<and> \<not> crawl_finished t"
  proof
    fix n
    show "\<exists>t. crawl_iterate py_int srv self n s = Inr t \<and> \<not> crawl_finished t"
    proof (cases "crawl_iterate py_int srv self n s")
      case (Inl e)
      from crawl_while_of_iterate_error [OF this] none show ?thesis by simp
    next
      case (Inr t)
      show ?thesis
      proof (cases "crawl_finished t")
        case True
        from crawl_while_of_iterate [OF Inr True] none show ?thesis by simp
      next
        case False
        with Inr show ?thesis by simp
      qed
    qed
  qed
next
  assume run: "\<forall>n. \<exists>t. crawl_iterate py_int srv self n s = Inr t \<and> \<not> crawl_finished t"
  show "crawl_while py_int srv self s = None"
  proof (cases "crawl_while py_int srv self s")
    case None
    then show ?thesis .
  next
    case (Some r)
    from crawl_while_returns [OF Some] obtain n where n: "case r of
               Inl e \<Rightarrow> crawl_iterate py_int srv self n s = Inl e
             | Inr docs \<Rightarrow> (\<exists>t. crawl_iterate py_int srv self n s = Inr t \<and>
                               crawl_finished t \<and> emlo_docs t = docs)" ..
    from run obtain t where "crawl_iterate py_int srv self n s = Inr t" "\<not> crawl_finished t"
      by blast
    with n show ?thesis by (cases r) auto
  qed
qed

section \<open>Invariants of the pagination loop\<close>

lemma loop_body_InrE:
  assumes "loop_body py_int srv self s = Inr s'"
  obtains url response data where
    "make_results_page_url self (int (length (emlo_docs s))) = Inr url"
    "srv (length (fetched s)) url = Some response"
    "status_code response = 200"
    "parse_results_page py_int self (content response) = Inr data"
    "emlo_docs s' = emlo_docs s @ parsed_results data"
    "fetched s' = fetched s @ [url]"
    "crawl_finished s' =
       (total_results data \<le> int (length (emlo_docs s')) \<or> crawl_finished s)"
  using loop_body_Inr [OF assms] by (elim exE conjE) (rule that, assumption+)



lemma crawl_iterate_Suc_Inr:
  assumes "crawl_iterate py_int srv self (Suc n) s = Inr t"
  shows "\<exists>s'. crawl_iterate py_int srv self n s = Inr s' \<and>
              (if crawl_finished s' then s' = t else loop_body py_int srv self s' = Inr t)"
proof (cases "crawl_iterate py_int srv self n s")
  case (Inl e)
  with assms [unfolded crawl_iterate_Suc_end] show ?thesis by simp
next
  case (Inr s')
  with assms [unfolded crawl_iterate_Suc_end] show ?thesis by (simp split: if_splits)
qed

text \<open>
  The step that ends a run: a finished state reached from an unfinished one comes out of
  one iteration on an unfinished state.
\<close>

lemma crawl_iterate_last_step:
  assumes "crawl_iterate py_int srv self n s = Inr t"
    and "crawl_finished t" and "\<not> crawl_finished s"
  shows "\<exists>m u. m < n \<and> crawl_iterate py_int srv self m s = Inr u \<and> \<not> crawl_finished u \<and>
               loop_body py_int srv self u = Inr t"
  using assms
proof (induction n arbitrary: t)
  case 0
  then show ?case by simp
next
  case (Suc n)
  from crawl_iterate_Suc_Inr [OF Suc.prems(1)] obtain s'
    where it: "crawl_iterate py_int srv self n s = Inr s'"
      and last: "if crawl_finished s' then s' = t else loop_body py_int srv self s' = Inr t"
    by blast
  show ?case
  proof (cases "crawl_finished s'")
    case True
    with last have "s' = t" by simp
    with Suc.IH [OF it [unfolded this] Suc.prems(2,3)] show ?thesis
      by (meson less_Suc_eq)
  next
    case False
    with last have "loop_body py_int srv self s' = Inr t" by simp
    with it False show ?thesis by blast
  qed
qed

text \<open>
  With a total \<open>T\<close> that every page reports, the flag of the loop tells on which side of
  \<open>T\<close> the number of records is, after every iteration.
\<close>

lemma crawl_iterate_flag:
  assumes stable: "\<forall>i url response data.
      srv i url = Some response \<and> parse_results_page py_int self (content response) = Inr data
        \<longrightarrow> total_results data = T"
    and "crawl_iterate py_int srv self n s = Inr t"
    and "\<not> crawl_finished s" and "0 < n"
  shows "crawl_finished t \<longleftrightarrow> T \<le> int (length (emlo_docs t))"
  using assms(2,4)
proof (induction n arbitrary: t)
  case 0
  then show ?case by simp
next
  case (Suc n)
  from crawl_iterate_Suc_Inr [OF Suc.prems(1)] obtain s'
    where it: "crawl_iterate py_int srv self n s = Inr s'"
      and last: "if crawl_finished s' then s' = t else loop_body py_int srv self s' = Inr t"
    by blast
  show ?case
  proof (cases "crawl_finished s'")
    case True
    with last have eq: "s' = t" by simp
    from True it assms(3) have "0 < n" by (cases n) auto
    from Suc.IH [OF it this] eq show ?thesis by simp
  next
    case False
    with last have b: "loop_body py_int srv self s' = Inr t" by simp
    from b obtain url response and data :: results_data where
      "srv (length (fetched s')) url = Some response"
      "parse_results_page py_int self (content response) = Inr data"
      "crawl_finished t = (total_results data \<le> int (length (emlo_docs t)) \<or> crawl_finished s')"
      by (rule loop_body_InrE)
    with stable False show ?thesis by auto
  qed
qed

lemma sample_int_digit:
  "sample_int (clean_text (ascii ''1'')) = Some 1"
  "sample_int (clean_text (ascii ''2'')) = Some 2"
  "sample_int (ascii ''3'') = Some 3"
  "sample_int (ascii ''5'') = Some 5"
  by (simp_all add: sample_int_def clean_text_def py_strip_def py_remove_def bullet_def
      py_isspace_def ascii_def)

lemma sample_total_text:
  "err_bind (py_split (ascii '' results'') (py_strip (ascii ''3 results''))) (\<lambda>parts. py_index parts 0)
     = Inr (ascii ''3'')"
  "err_bind (py_split (ascii '' results'') (py_strip (ascii ''5 results''))) (\<lambda>parts. py_index parts 0)
     = Inr (ascii ''5'')"
  by (simp_all add: err_bind_def py_split_def py_index_def py_strip_def py_isspace_def ascii_def
      py_split_from.simps)

lemma parse_sample_page:
  assumes "map_err (\<lambda>results_row. make_emlo_doc py_int self results_row sample_headers) rows = Inr docs"
    and "err_bind (py_split (ascii '' results'') (py_strip (ascii total_text)))
           (\<lambda>parts. py_index parts 0) = Inr t"
    and "py_int t = Some T"
  shows "parse_results_page py_int self (sample_page rows total_text) =
           Inr \<lparr>total_results = T, parsed_results = docs\<rparr>"
  using assms
  by (auto simp: parse_results_page_def sample_page_def parse_results_rows_def
      sample_header_parsed err_bind_def split: sum.splits)

lemma stalled_page:
  "parse_results_page sample_int self (sample_page [] ''5 results'') =
     Inr \<lparr>total_results = 5, parsed_results = []\<rparr>"
  by (rule parse_sample_page [where py_int = sample_int,
        OF _ sample_total_text(2) sample_int_digit(4)]) simp

lemma overshoot_page:
  "parse_results_page sample_int sample_crawler
       (sample_page [sample_row ''1'', sample_row ''2''] ''3 results'') =
     Inr \<lparr>total_results = 3, parsed_results = [sample_doc 1, sample_doc 2]\<rparr>"
  by (rule parse_sample_page [where py_int = sample_int,
        OF _ sample_total_text(1) sample_int_digit(3)])
    (simp add: sample_row_doc sample_int_digit)

lemma crawl_collection_eval:
  assumes "collection_info (ascii ''collection_name'') = Some cn"
    and "collection_info (ascii ''search_name'') = Some sn"
  shows "crawl_collection py_int srv self collection_info =
           crawl_while py_int srv (set_collection self cn sn) crawl_start"
  using assms by (simp add: crawl_collection_def py_getitem_def)

lemma make_results_page_url_set:
  "make_results_page_url (set_collection self cn sn) start_num =
     Inr (base_url self @ ascii ''?col_cat='' @ sn @ ascii ''&start='' @ py_str_int start_num)"
  by (simp add: make_results_page_url_def set_collection_def assert_collection_set_def err_bind_def)

section \<open>A crawl that never ends\<close>

text \<open>
  C3. Nothing but the comparison with the reported total ends the loop. When every page
  the server sends parses to zero records and reports a positive total, every iteration
  leaves the loop running with no record accumulated, and \<open>crawl_collection\<close> does not
  return.
\<close>

theorem crawl_collection_diverges:
  assumes cn: "collection_info (ascii ''collection_name'') = Some cn"
    and sn: "collection_info (ascii ''search_name'') = Some sn"
    and empty_pages: "\<forall>i url. \<exists>response. srv i url = Some response \<and>
        status_code response = 200 \<and>
        parse_results_page py_int (set_collection self cn sn) (content response) =
          Inr \<lparr>total_results = T, parsed_results = []\<rparr>"
    and positive: "0 < T"
  shows "crawl_collection py_int srv self collection_info = None \<and>
         (\<forall>n. \<exists>t. crawl_iterate py_int srv (set_collection self cn sn) n crawl_start = Inr t \<and>
                  \<not> crawl_finished t \<and> emlo_docs t = [] \<and> length (fetched t) = n)"
proof -
  let ?self = "set_collection self cn sn"
  have run: "\<exists>t. crawl_iterate py_int srv ?self n crawl_start = Inr t \<and>
                  \<not> crawl_finished t \<and> emlo_docs t = [] \<and> length (fetched t) = n" for n
  proof (induction n)
    case 0
    show ?case by (simp add: crawl_start_def)
  next
    case (Suc n)
    then obtain t where it: "crawl_iterate py_int srv ?self n crawl_start = Inr t"
      and t: "\<not> crawl_finished t" "emlo_docs t = []" "length (fetched t) = n" by blast
    let ?url = "base_url self @ ascii ''?col_cat='' @ sn @ ascii ''&start='' @ py_str_int 0"
    have url: "make_results_page_url ?self (int (length (emlo_docs t))) = Inr ?url"
      by (simp add: t make_results_page_url_set)
    from empty_pages obtain response where r: "srv (length (fetched t)) ?url = Some response"
      "status_code response = 200"
      "parse_results_page py_int ?self (content response) =
         Inr \<lparr>total_results = T, parsed_results = []\<rparr>"
      by blast
    have "loop_body py_int srv ?self t =
        Inr \<lparr>crawl_finished = False, emlo_docs = [], fetched = fetched t @ [?url]\<rparr>"
      using positive t
      by (simp add: loop_body_eval [where srv = srv and py_int = py_int, OF url r])
    with it t show ?case
      by (subst crawl_iterate_Suc_end) simp
  qed
  then have "\<forall>n. \<exists>t. crawl_iterate py_int srv ?self n crawl_start = Inr t \<and> \<not> crawl_finished t"
    by blast
  then have "crawl_while py_int srv ?self crawl_start = None"
    by (rule crawl_while_None_iff [THEN iffD2])
  with run show ?thesis
    by (simp add: crawl_collection_eval [OF cn sn])
qed

theorem crawl_collection_diverges_witness:
  "sample_info (ascii ''collection_name'') = Some (ascii ''Scaliger, Joseph Justus'') \<and>
   sample_info (ascii ''search_name'') = Some (ascii ''Scaliger%2C+Joseph+Justus'') \<and>
   crawl_collection sample_int stalled_server EMLOCrawler_init sample_info = None"
proof -
  have cn: "sample_info (ascii ''collection_name'') = Some (ascii ''Scaliger, Joseph Justus'')"
    and sn: "sample_info (ascii ''search_name'') = Some (ascii ''Scaliger%2C+Joseph+Justus'')"
    by (simp_all add: sample_info_def ascii_inj)
  have pages: "\<forall>i url. \<exists>response. stalled_server i url = Some response \<and>
        status_code response = 200 \<and>
        parse_results_page sample_int
          (set_collection EMLOCrawler_init (ascii ''Scaliger, Joseph Justus'')
             (ascii ''Scaliger%2C+Joseph+Justus'')) (content response) =
          Inr \<lparr>total_results = 5, parsed_results = []\<rparr>"
    by (simp add: stalled_server_def stalled_page)
  have "(0::int) < 5" by simp
  from crawl_collection_diverges [OF cn sn pages this] cn sn show ?thesis by simp
qed

theorem parse_results_rows_pops_header_witness:
  "[sample_header, sample_row ''1'', sample_row ''2''] \<noteq> [] \<and>
   fst (parse_results_rows sample_int sample_crawler
          [sample_header, sample_row ''1'', sample_row ''2'']) =
     [sample_row ''1'', sample_row ''2''] \<and>
   snd (parse_results_rows sample_int sample_crawler
          [sample_header, sample_row ''1'', sample_row ''2'']) =
     Inr [sample_doc 1, sample_doc 2]"
proof -
  let ?rows = "[sample_header, sample_row ''1'', sample_row ''2'']"
  have ne: "?rows \<noteq> []" by simp
  from parse_results_rows_pops_header [OF ne, of sample_int sample_crawler]
  have "fst (parse_results_rows sample_int sample_crawler ?rows) = tl ?rows" by blast
  moreover have "snd (parse_results_rows sample_int sample_crawler ?rows) =
      Inr [sample_doc 1, sample_doc 2]"
    by (simp add: parse_results_rows_def sample_header_parsed err_bind_def sample_row_doc
        sample_int_digit)
  ultimately show ?thesis by simp
qed

section \<open>Reaching the reported total\<close>

lemma crawl_start_unfinished: "\<not> crawl_finished crawl_start"
  by (simp add: crawl_start_def)


lemma sample_crawler_url: "make_results_page_url sample_crawler start_num = Inr (sample_url start_num)"
  by (simp add: sample_crawler_def make_results_page_url_set sample_url_def EMLOCrawler_init_def
      ascii_def)

lemma sample_info_keys:
  "sample_info (ascii ''collection_name'') = Some (ascii ''Scaliger, Joseph Justus'')"
  "sample_info (ascii ''search_name'') = Some (ascii ''Scaliger%2C+Joseph+Justus'')"
  by (simp_all add: sample_info_def ascii_inj)

lemma sample_crawl_collection:
  "crawl_collection py_int srv EMLOCrawler_init sample_info =
     crawl_while py_int srv sample_crawler crawl_start"
  by (simp add: crawl_collection_eval [OF sample_info_keys] sample_crawler_def)


lemma loop_body_sample:
  assumes "srv (length (fetched s)) (sample_url (int (length (emlo_docs s)))) =
      Some \<lparr>status_code = 200, content = pg\<rparr>"
    and "parse_results_page py_int sample_crawler pg = Inr data"
  shows "loop_body py_int srv sample_crawler s =
           Inr \<lparr>crawl_finished =
                  (total_results data \<le> int (length (emlo_docs s @ parsed_results data)) \<or>
                   crawl_finished s),
                emlo_docs = emlo_docs s @ parsed_results data,
                fetched = fetched s @ [sample_url (int (length (emlo_docs s)))]\<rparr>"
  using loop_body_eval [where srv = srv and py_int = py_int, OF sample_crawler_url assms(1)]
    assms(2) by simp



lemma overshoot_step_1:
  "loop_body sample_int overshoot_server sample_crawler crawl_start =
     Inr \<lparr>crawl_finished = False, emlo_docs = [sample_doc 1, sample_doc 2],
          fetched = [sample_url 0]\<rparr>"
  using loop_body_sample [where srv = overshoot_server and py_int = sample_int and
      s = crawl_start, OF _ overshoot_page]
  by (simp add: crawl_start_def overshoot_server_def)

lemma overshoot_step_2:
  "loop_body sample_int overshoot_server sample_crawler
       \<lparr>crawl_finished = False, emlo_docs = [sample_doc 1, sample_doc 2],
        fetched = [sample_url 0]\<rparr> =
     Inr \<lparr>crawl_finished = True,
          emlo_docs = [sample_doc 1, sample_doc 2, sample_doc 1, sample_doc 2],
          fetched = [sample_url 0, sample_url 2]\<rparr>"
  using loop_body_sample [where srv = overshoot_server and py_int = sample_int and
      s = "\<lparr>crawl_finished = False, emlo_docs = [sample_doc 1, sample_doc 2],
        fetched = [sample_url 0]\<rparr>", OF _ overshoot_page]
  by (simp add: overshoot_server_def)

lemma overshoot_run_1:
  "crawl_iterate sample_int overshoot_server sample_crawler (Suc 0) crawl_start =
     Inr \<lparr>crawl_finished = False, emlo_docs = [sample_doc 1, sample_doc 2],
          fetched = [sample_url 0]\<rparr>"
  by (simp add: overshoot_step_1 crawl_start_unfinished)

lemma overshoot_run_2:
  "crawl_iterate sample_int overshoot_server sample_crawler (Suc (Suc 0)) crawl_start =
     Inr \<lparr>crawl_finished = True,
          emlo_docs = [sample_doc 1, sample_doc 2, sample_doc 1, sample_doc 2],
          fetched = [sample_url 0, sample_url 2]\<rparr>"
  by (simp add: overshoot_step_1 overshoot_step_2 crawl_start_unfinished)


lemma overshoot_server_stable:
  "\<forall>i url response data.
      overshoot_server i url = Some response \<and>
      parse_results_page sample_int
        (set_collection EMLOCrawler_init (ascii ''Scaliger, Joseph Justus'')
           (ascii ''Scaliger%2C+Joseph+Justus'')) (content response) = Inr data
        \<longrightarrow> total_results data = 3"
  using overshoot_page by (auto simp: overshoot_server_def sample_crawler_def)



section \<open>The number of records against the total\<close>

text \<open>
  C2, as the code has it. Let every page report the total \<open>T\<close>. After an iteration
  that leaves the loop running, the number of accumulated records is below \<open>T\<close>. After
  the iteration that ends the loop it is \<open>T\<close> or more, and it can exceed \<open>T\<close>: the
  records held before that last fetch were none, or fewer than \<open>T\<close>, and the last page
  is appended whole.
\<close>

theorem crawl_collection_count_bound:
  assumes stable: "\<forall>i url response data.
      srv i url = Some response \<and>
      parse_results_page py_int (set_collection self cn sn) (content response) = Inr data
        \<longrightarrow> total_results data = T"
    and it: "crawl_iterate py_int srv (set_collection self cn sn) n crawl_start = Inr t"
    and pos: "0 < n"
  shows "if crawl_finished t
         then T \<le> int (length (emlo_docs t)) \<and>
              (\<exists>m u page_docs. m < n \<and>
                 crawl_iterate py_int srv (set_collection self cn sn) m crawl_start = Inr u \<and>
                 \<not> crawl_finished u \<and>
                 emlo_docs t = emlo_docs u @ page_docs \<and>
                 (m = 0 \<or> int (length (emlo_docs u)) < T))
         else int (length (emlo_docs t)) < T"
proof -
  let ?self = "set_collection self cn sn"
  note flag = crawl_iterate_flag [where srv = srv and py_int = py_int, OF stable _
      crawl_start_unfinished]
  show ?thesis
  proof (cases "crawl_finished t")
    case False
    with flag [OF it pos] show ?thesis by simp
  next
    case True
    with flag [OF it pos] have total: "T \<le> int (length (emlo_docs t))" by simp
    from crawl_iterate_last_step [OF it True crawl_start_unfinished] obtain m u
      where m: "m < n" and u: "crawl_iterate py_int srv ?self m crawl_start = Inr u"
        and nf: "\<not> crawl_finished u" and b: "loop_body py_int srv ?self u = Inr t"
      by blast
    from b obtain data :: results_data where "emlo_docs t = emlo_docs u @ parsed_results data"
      by (rule loop_body_InrE)
    moreover have "m = 0 \<or> int (length (emlo_docs u)) < T"
    proof (cases "m = 0")
      case True
      then show ?thesis ..
    next
      case False
      then have "0 < m" by simp
      from flag [OF u this] nf show ?thesis by simp
    qed
    ultimately have "\<exists>m u page_docs. m < n \<and>
        crawl_iterate py_int srv ?self m crawl_start = Inr u \<and> \<not> crawl_finished u \<and>
        emlo_docs t = emlo_docs u @ page_docs \<and> (m = 0 \<or> int (length (emlo_docs u)) < T)"
      using m u nf by blast
    with True total show ?thesis by simp
  qed
qed

theorem crawl_collection_count_bound_witness:
  "crawl_iterate sample_int overshoot_server sample_crawler (Suc 0) crawl_start =
     Inr \<lparr>crawl_finished = False, emlo_docs = [sample_doc 1, sample_doc 2],
          fetched = [sample_url 0]\<rparr> \<and>
   int (length [sample_doc 1, sample_doc 2]) < 3"
proof -
  have it: "crawl_iterate sample_int overshoot_server
      (set_collection EMLOCrawler_init (ascii ''Scaliger, Joseph Justus'')
         (ascii ''Scaliger%2C+Joseph+Justus'')) (Suc 0) crawl_start =
     Inr \<lparr>crawl_finished = False, emlo_docs = [sample_doc 1, sample_doc 2],
          fetched = [sample_url 0]\<rparr>"
    using overshoot_run_1 by (simp only: sample_crawler_def)
  have "0 < Suc 0" by simp
  from crawl_collection_count_bound [OF overshoot_server_stable it this]
  have "int (length [sample_doc 1, sample_doc 2]) < 3" by simp
  with overshoot_run_1 show ?thesis by simp
qed

text \<open>
  The claim C2 as it is stated fails: with the server whose every page holds two rows and
  reports 3 results, the second iteration ends the loop with four records held.
\<close>

theorem crawl_collection_count_counterexample:
  "crawl_iterate sample_int overshoot_server sample_crawler 2 crawl_start =
     Inr \<lparr>crawl_finished = True,
          emlo_docs = [sample_doc 1, sample_doc 2, sample_doc 1, sample_doc 2],
          fetched = [sample_url 0, sample_url 2]\<rparr> \<and>
   parse_results_page sample_int sample_crawler
       (sample_page [sample_row ''1'', sample_row ''2''] ''3 results'') =
     Inr \<lparr>total_results = 3, parsed_results = [sample_doc 1, sample_doc 2]\<rparr> \<and>
   \<not> int (length [sample_doc 1, sample_doc 2, sample_doc 1, sample_doc 2]) \<le> 3"
  using overshoot_run_2 by (simp add: numeral_2_eq_2 overshoot_page)

section \<open>The decimal text of the offset\<close>

lemma digits10_range: "c \<in> set (digits10 n) \<Longrightarrow> 48 \<le> c \<and> c \<le> 57"
proof (induction n rule: digits10.induct)
  case (1 n)
  show ?case
  proof (cases "n < 10")
    case True
    with "1.prems" show ?thesis by (subst (asm) digits10.simps) simp
  next
    case False
    from "1.prems" have "c \<in> set (digits10 (n div 10)) \<or> c = 48 + n mod 10"
      using False by (subst (asm) digits10.simps) auto
    then show ?thesis
    proof
      assume "c \<in> set (digits10 (n div 10))"
      with False show ?thesis by (rule "1.IH")
    next
      assume "c = 48 + n mod 10"
      moreover have "n mod 10 < 10" by simp
      ultimately show ?thesis by linarith
    qed
  qed
qed

lemma digits10_not_empty: "digits10 n \<noteq> []"
  by (subst digits10.simps) simp

lemma digits10_value: "fold (\<lambda>c a. 10 * a + (c - 48)) (digits10 n) 0 = n"
proof (induction n rule: digits10.induct)
  case (1 n)
  show ?case
  proof (cases "n < 10")
    case True
    then show ?thesis by (subst digits10.simps) simp
  next
    case False
    with "1.IH" have "fold (\<lambda>c a. 10 * a + (c - 48)) (digits10 (n div 10)) 0 = n div 10"
      by simp
    with False show ?thesis by (subst digits10.simps) simp
  qed
qed


lemma digits10_inj:
  assumes "digits10 m = digits10 n"
  shows "m = n"
proof -
  have "m = fold (\<lambda>c a. 10 * a + (c - 48)) (digits10 m) 0"
    by (simp only: digits10_value)
  also have "\<dots> = fold (\<lambda>c a. 10 * a + (c - 48)) (digits10 n) 0"
    by (simp only: assms)
  also have "\<dots> = n"
    by (rule digits10_value)
  finally show ?thesis .
qed

lemma py_str_int_inj:
  assumes "py_str_int a = py_str_int b"
  shows "a = b"
proof -
  have no_minus: "45 # ds \<noteq> digits10 n" for ds n
  proof
    assume "45 # ds = digits10 n"
    then have "45 \<in> set (digits10 n)" by (metis list.set_intros(1))
    from digits10_range [OF this] show False by simp
  qed
  show ?thesis
  proof (cases "a < 0")
    case True
    show ?thesis
    proof (cases "b < 0")
      case True
      with \<open>a < 0\<close> assms have "digits10 (nat (- a)) = digits10 (nat (- b))"
        by (simp add: py_str_int_def)
      then have "nat (- a) = nat (- b)" by (rule digits10_inj)
      with True \<open>a < 0\<close> show ?thesis by simp
    next
      case False
      with True assms have "45 # digits10 (nat (- a)) = digits10 (nat b)"
        by (simp add: py_str_int_def)
      with no_minus show ?thesis by blast
    qed
  next
    case False
    show ?thesis
    proof (cases "b < 0")
      case True
      with False assms have "45 # digits10 (nat (- b)) = digits10 (nat a)"
        by (simp add: py_str_int_def)
      with no_minus show ?thesis by blast
    next
      case nb: False
      with False assms have "digits10 (nat a) = digits10 (nat b)"
        by (simp add: py_str_int_def)
      then have "nat a = nat b" by (rule digits10_inj)
      with False nb show ?thesis by simp
    qed
  qed
qed

lemma py_str_int_10: "py_str_int 10 = ascii ''10''"
  by (simp add: py_str_int_def digits10.simps ascii_def)

section \<open>The requests of a crawl\<close>

lemma crawl_iterate_fetched:
  assumes "crawl_iterate py_int srv self n crawl_start = Inr t"
  shows "length (fetched t) \<le> n \<and>
         (\<not> crawl_finished t \<longrightarrow> length (fetched t) = n) \<and>
         (\<forall>k < length (fetched t).
            \<exists>u. crawl_iterate py_int srv self k crawl_start = Inr u \<and>
                \<not> crawl_finished u \<and> length (fetched u) = k \<and>
                make_results_page_url self (int (length (emlo_docs u))) = Inr (fetched t ! k))"
  using assms
proof (induction n arbitrary: t)
  case 0
  then show ?case by (auto simp: crawl_start_def)
next
  case (Suc n)
  from crawl_iterate_Suc_Inr [OF Suc.prems] obtain s'
    where it: "crawl_iterate py_int srv self n crawl_start = Inr s'"
      and last: "if crawl_finished s' then s' = t else loop_body py_int srv self s' = Inr t"
    by blast
  note IH = Suc.IH [OF it]
  show ?case
  proof (cases "crawl_finished s'")
    case True
    with last have "s' = t" by simp
    with IH True show ?thesis by auto
  next
    case False
    with last have b: "loop_body py_int srv self s' = Inr t" by simp
    from b obtain url where url: "make_results_page_url self (int (length (emlo_docs s'))) = Inr url"
      and f: "fetched t = fetched s' @ [url]"
      by (rule loop_body_InrE)
    from IH False have len: "length (fetched s') = n" by simp
    have "\<exists>u. crawl_iterate py_int srv self k crawl_start = Inr u \<and>
                \<not> crawl_finished u \<and> length (fetched u) = k \<and>
                make_results_page_url self (int (length (emlo_docs u))) = Inr (fetched t ! k)"
      if "k < length (fetched t)" for k
    proof (cases "k < n")
      case True
      with IH len obtain u where "crawl_iterate py_int srv self k crawl_start = Inr u"
        "\<not> crawl_finished u" "length (fetched u) = k"
        "make_results_page_url self (int (length (emlo_docs u))) = Inr (fetched s' ! k)"
        by auto
      moreover from True len f have "fetched t ! k = fetched s' ! k"
        by (simp add: nth_append)
      ultimately show ?thesis by auto
    next
      case nk: False
      with that f len have k: "k = n" by simp
      with f len have "fetched t ! k = url" by (simp add: nth_append)
      with it False len url k show ?thesis by auto
    qed
    with f len show ?thesis by simp
  qed
qed

text \<open>
  C4. Every request of a crawl is the one of an iteration: the \<open>k\<close>-th URL requested
  (counting from 0) is the URL that \<open>make_results_page_url\<close> builds for the number of
  records accumulated after \<open>k\<close> iterations. That URL ends with the decimal text of this
  number after \<^verbatim>\<open>&start=\<close> and is the URL of no other offset; so a fetch made with 10
  records accumulated, as the second fetch of a crawl whose first page gave 10 records,
  asks for \<^verbatim>\<open>&start=10\<close>.
\<close>

theorem crawl_collection_start_offset:
  assumes "crawl_iterate py_int srv (set_collection self cn sn) n crawl_start = Inr t"
    and "k < length (fetched t)"
  shows "\<exists>u. crawl_iterate py_int srv (set_collection self cn sn) k crawl_start = Inr u \<and>
             \<not> crawl_finished u \<and>
             make_results_page_url (set_collection self cn sn) (int (length (emlo_docs u))) =
               Inr (fetched t ! k) \<and>
             fetched t ! k =
               base_url self @ ascii ''?col_cat='' @ sn @ ascii ''&start='' @
               py_str_int (int (length (emlo_docs u))) \<and>
             (\<forall>j. make_results_page_url (set_collection self cn sn) j = Inr (fetched t ! k)
                \<longrightarrow> j = int (length (emlo_docs u))) \<and>
             (length (emlo_docs u) = 10 \<longrightarrow>
                fetched t ! k =
                  base_url self @ ascii ''?col_cat='' @ sn @ ascii ''&start=10'')"
proof -
  let ?self = "set_collection self cn sn"
  from crawl_iterate_fetched [OF assms(1)] assms(2) obtain u
    where u: "crawl_iterate py_int srv ?self k crawl_start = Inr u" "\<not> crawl_finished u"
      and url: "make_results_page_url ?self (int (length (emlo_docs u))) = Inr (fetched t ! k)"
    by blast
  from url have form: "fetched t ! k =
      base_url self @ ascii ''?col_cat='' @ sn @ ascii ''&start='' @
      py_str_int (int (length (emlo_docs u)))"
    by (simp add: make_results_page_url_set)
  have only: "j = int (length (emlo_docs u))"
    if "make_results_page_url ?self j = Inr (fetched t ! k)" for j
  proof -
    from that form have "py_str_int j = py_str_int (int (length (emlo_docs u)))"
      by (simp add: make_results_page_url_set)
    then show ?thesis by (rule py_str_int_inj)
  qed
  have ten: "fetched t ! k = base_url self @ ascii ''?col_cat='' @ sn @ ascii ''&start=10''"
    if "length (emlo_docs u) = 10"
  proof -
    have "ascii ''&start=10'' = ascii ''&start='' @ ascii ''10''" by (simp add: ascii_def)
    with form that show ?thesis by (simp add: py_str_int_10)
  qed
  from u url form only ten show ?thesis by blast
qed

lemma sample_int_numbers:
  "sample_int (clean_text (ascii ''3'')) = Some 3"
  "sample_int (clean_text (ascii ''4'')) = Some 4"
  "sample_int (clean_text (ascii ''5'')) = Some 5"
  "sample_int (clean_text (ascii ''6'')) = Some 6"
  "sample_int (clean_text (ascii ''7'')) = Some 7"
  "sample_int (clean_text (ascii ''8'')) = Some 8"
  "sample_int (clean_text (ascii ''9'')) = Some 9"
  "sample_int (clean_text (ascii ''10'')) = Some 10"
  "sample_int (clean_text (ascii ''11'')) = Some 11"
  "sample_int (clean_text (ascii ''12'')) = Some 12"
  by (simp_all add: sample_int_def clean_text_def py_strip_def py_remove_def bullet_def
      py_isspace_def ascii_def)

lemma twelve_results_text:
  "err_bind (py_split (ascii '' results'') (py_strip (ascii ''12 results'')))
     (\<lambda>parts. py_index parts 0) = Inr (ascii ''12'')"
  by (simp add: err_bind_def py_split_def py_index_def py_strip_def py_isspace_def ascii_def
      py_split_from.simps)

lemma sample_int_12: "sample_int (ascii ''12'') = Some 12"
  by (simp add: sample_int_def ascii_def)

lemma first_page:
  "parse_results_page sample_int sample_crawler (sample_page first_page_rows ''12 results'') =
     Inr \<lparr>total_results = 12, parsed_results = first_page_docs\<rparr>"
  by (rule parse_sample_page [where py_int = sample_int, OF _ twelve_results_text sample_int_12])
    (simp add: sample_row_doc sample_int_digit sample_int_numbers first_page_docs_def
      first_page_rows_def)

lemma second_page:
  "parse_results_page sample_int sample_crawler (sample_page second_page_rows ''12 results'') =
     Inr \<lparr>total_results = 12, parsed_results = second_page_docs\<rparr>"
  by (rule parse_sample_page [where py_int = sample_int, OF _ twelve_results_text sample_int_12])
    (simp add: sample_row_doc sample_int_numbers second_page_docs_def second_page_rows_def)

lemma sample_url_10: "sample_url 10 \<noteq> sample_url 0"
proof
  assume "sample_url 10 = sample_url 0"
  then have "py_str_int 10 = py_str_int 0" by (simp add: sample_url_def)
  then have "(10::int) = 0" by (rule py_str_int_inj)
  then show False by simp
qed

lemma page_lengths: "length first_page_docs = 10" "length second_page_docs = 2"
  by (simp_all add: first_page_docs_def second_page_docs_def)

lemma two_page_step_1:
  "loop_body sample_int two_page_server sample_crawler crawl_start =
     Inr \<lparr>crawl_finished = False, emlo_docs = first_page_docs, fetched = [sample_url 0]\<rparr>"
  using loop_body_sample [where srv = two_page_server and py_int = sample_int and
      s = crawl_start, OF _ first_page]
  by (simp add: crawl_start_def two_page_server_def page_lengths)

lemma two_page_step_2:
  "loop_body sample_int two_page_server sample_crawler
       \<lparr>crawl_finished = False, emlo_docs = first_page_docs, fetched = [sample_url 0]\<rparr> =
     Inr \<lparr>crawl_finished = True, emlo_docs = first_page_docs @ second_page_docs,
          fetched = [sample_url 0, sample_url 10]\<rparr>"
  using loop_body_sample [where srv = two_page_server and py_int = sample_int and
      s = "\<lparr>crawl_finished = False, emlo_docs = first_page_docs, fetched = [sample_url 0]\<rparr>",
      OF _ second_page]
  by (simp add: two_page_server_def page_lengths sample_url_10)

lemma two_page_run_1:
  "crawl_iterate sample_int two_page_server sample_crawler (Suc 0) crawl_start =
     Inr \<lparr>crawl_finished = False, emlo_docs = first_page_docs, fetched = [sample_url 0]\<rparr>"
  by (simp add: two_page_step_1 crawl_start_unfinished)

lemma two_page_run_2:
  "crawl_iterate sample_int two_page_server sample_crawler (Suc (Suc 0)) crawl_start =
     Inr \<lparr>crawl_finished = True, emlo_docs = first_page_docs @ second_page_docs,
          fetched = [sample_url 0, sample_url 10]\<rparr>"
  by (simp add: two_page_step_1 two_page_step_2 crawl_start_unfinished)

theorem crawl_collection_start_offset_witness:
  "crawl_collection sample_int two_page_server EMLOCrawler_init sample_info =
     Some (Inr (first_page_docs @ second_page_docs)) \<and>
   length (first_page_docs @ second_page_docs) = 12 \<and>
   crawl_iterate sample_int two_page_server sample_crawler 2 crawl_start =
     Inr \<lparr>crawl_finished = True, emlo_docs = first_page_docs @ second_page_docs,
          fetched = [sample_url 0, sample_url 10]\<rparr> \<and>
   sample_url 10 =
     ascii ''http://emlo.bodleian.ox.ac.uk/forms/advanced?col_cat=Scaliger%2C+Joseph+Justus&start=10''"
proof -
  let ?t = "\<lparr>crawl_finished = True, emlo_docs = first_page_docs @ second_page_docs,
          fetched = [sample_url 0, sample_url 10]\<rparr>"
  have run: "crawl_iterate sample_int two_page_server
      (set_collection EMLOCrawler_init (ascii ''Scaliger, Joseph Justus'')
         (ascii ''Scaliger%2C+Joseph+Justus'')) (Suc (Suc 0)) crawl_start = Inr ?t"
    using two_page_run_2 by (simp only: sample_crawler_def)
  have k: "Suc 0 < length (fetched ?t)" by simp
  from crawl_collection_start_offset [OF run k] obtain u where
    u: "crawl_iterate sample_int two_page_server
      (set_collection EMLOCrawler_init (ascii ''Scaliger, Joseph Justus'')
         (ascii ''Scaliger%2C+Joseph+Justus'')) (Suc 0) crawl_start = Inr u"
    and ten: "length (emlo_docs u) = 10 \<longrightarrow>
      fetched ?t ! Suc 0 = base_url EMLOCrawler_init @ ascii ''?col_cat='' @
        ascii ''Scaliger%2C+Joseph+Justus'' @ ascii ''&start=10''"
    by blast
  from u two_page_run_1 have "length (emlo_docs u) = 10"
    by (simp add: sample_crawler_def page_lengths)
  with ten have "sample_url 10 = base_url EMLOCrawler_init @ ascii ''?col_cat='' @
        ascii ''Scaliger%2C+Joseph+Justus'' @ ascii ''&start=10''"
    by simp
  then have url: "sample_url 10 =
     ascii ''http://emlo.bodleian.ox.ac.uk/forms/advanced?col_cat=Scaliger%2C+Joseph+Justus&start=10''"
    by (simp add: EMLOCrawler_init_def ascii_def)
  have ret: "crawl_collection sample_int two_page_server EMLOCrawler_init sample_info =
     Some (Inr (first_page_docs @ second_page_docs))"
    using crawl_while_of_iterate [OF two_page_run_2] by (simp add: sample_crawl_collection)
  have it: "crawl_iterate sample_int two_page_server sample_crawler 2 crawl_start = Inr ?t"
    using two_page_run_2 by (simp only: numeral_2_eq_2)
  from ret it url show ?thesis by (simp add: page_lengths)
qed

section \<open>A sequence number that is no integer\<close>

lemma set_properties_unparsable:
  assumes "doc (ascii ''Result_num'') = Some num_text" and "py_int num_text = None"
  shows "set_properties py_int self doc = Inl ValueError"
  using assms by (simp add: set_properties_def err_bind_def py_getitem_def)

lemma doc_id_other_key: "ascii ''doc_id'' \<noteq> ascii ''Result_num''"
  by (simp add: ascii_inj)

text \<open>
  C5. Take a data row of a fetched page whose field \<open>Result_num\<close>, as the row's dict
  holds it, is a text that \<^verbatim>\<open>int\<close> rejects. Then \<open>make_emlo_doc\<close> produces no record
  for the row but an error, which is ValueError when the link identifier of the row can
  be read; \<open>parse_results_rows\<close> and \<open>parse_results_page\<close> fail, and the error of the
  page leaves the loop body and ends the crawl: the run returns that error and no list.
\<close>

theorem unparsable_result_num_aborts:
  assumes header: "parse_results_header header_row = Inr headers"
    and row: "results_row \<in> set rows"
    and dict: "make_dict (map clean_cell_content (td_cells results_row)) headers 0 Map.empty
                 = Inr doc"
    and field: "doc (ascii ''Result_num'') = Some num_text"
    and bad: "py_int num_text = None"
    and table: "results_table page_soup = Some (header_row # rows)"
    and running: "\<not> crawl_finished s"
    and url: "make_results_page_url self (int (length (emlo_docs s))) = Inr url"
    and response: "srv (length (fetched s)) url =
                     Some \<lparr>status_code = 200, content = page_soup\<rparr>"
  shows "(\<exists>e. make_emlo_doc py_int self results_row headers = Inl e) \<and>
         (\<forall>ident. get_result_identifier results_row = Inr ident \<longrightarrow>
            make_emlo_doc py_int self results_row headers = Inl ValueError) \<and>
         (\<exists>e. snd (parse_results_rows py_int self (header_row # rows)) = Inl e) \<and>
         (\<exists>e. parse_results_page py_int self page_soup = Inl e \<and>
              loop_body py_int srv self s = Inl e \<and>
              crawl_while py_int srv self s = Some (Inl e))"
proof -
  have value_error: "make_emlo_doc py_int self results_row headers = Inl ValueError"
    if "get_result_identifier results_row = Inr ident" for ident
  proof -
    from field have "(doc(ascii ''doc_id'' \<mapsto> ident)) (ascii ''Result_num'') = Some num_text"
      using doc_id_other_key by simp
    from set_properties_unparsable [where py_int = py_int and
        doc = "doc(ascii ''doc_id'' \<mapsto> ident)", OF this bad] dict that
    show ?thesis
      by (simp add: make_emlo_doc_def err_bind_def)
  qed
  have no_record: "\<exists>e. make_emlo_doc py_int self results_row headers = Inl e"
  proof (cases "get_result_identifier results_row")
    case (Inl e)
    with dict show ?thesis by (simp add: make_emlo_doc_def err_bind_def)
  next
    case (Inr ident)
    from value_error [OF this] show ?thesis ..
  qed
  then obtain e0 where e0: "make_emlo_doc py_int self results_row headers = Inl e0" ..
  from map_err_Inl [of results_row rows
      "\<lambda>results_row. make_emlo_doc py_int self results_row headers", OF row e0]
  obtain e where rows: "map_err (\<lambda>results_row. make_emlo_doc py_int self results_row headers)
      rows = Inl e" ..
  with header have parsed: "snd (parse_results_rows py_int self (header_row # rows)) = Inl e"
    by (simp add: parse_results_rows_def err_bind_def)
  with table have pg: "parse_results_page py_int self page_soup = Inl e"
    by (simp add: parse_results_page_def err_bind_def)
  from url have "assert_collection_set self = Inr ()"
    by (auto simp: make_results_page_url_def err_bind_def split: sum.splits)
  with url response pg have body: "loop_body py_int srv self s = Inl e"
    by (simp add: loop_body_def crawler_get_results_page_def get_results_page_eval)
  with running have "crawl_while py_int srv self s = Some (Inl e)"
    by (subst crawl_while.simps) simp
  with pg body have "\<exists>e. parse_results_page py_int self page_soup = Inl e \<and>
      loop_body py_int srv self s = Inl e \<and> crawl_while py_int srv self s = Some (Inl e)"
    by blast
  moreover from parsed
  have "\<exists>e. snd (parse_results_rows py_int self (header_row # rows)) = Inl e" ..
  moreover from value_error
  have "\<forall>ident. get_result_identifier results_row = Inr ident \<longrightarrow>
      make_emlo_doc py_int self results_row headers = Inl ValueError" by blast
  ultimately show ?thesis using no_record by blast
qed

theorem unparsable_result_num_aborts_witness:
  "sample_int (clean_text (ascii ''x'')) = None \<and>
   make_emlo_doc sample_int sample_crawler (sample_row ''x'') sample_headers = Inl ValueError \<and>
   crawl_collection sample_int bad_row_server EMLOCrawler_init sample_info =
     Some (Inl ValueError)"
proof -
  let ?rows = "[sample_row ''1'', sample_row ''x'']"
  let ?page = "sample_page ?rows ''2 results''"
  let ?doc = "[ascii ''Result_num'' \<mapsto> clean_text (ascii ''x''),
          ascii ''Doc_type'' \<mapsto> ascii ''Letter'',
          ascii ''Date'' \<mapsto> ascii ''1600'', ascii ''Author'' \<mapsto> ascii ''Scaliger'',
          ascii ''Origin'' \<mapsto> ascii ''Leiden'', ascii ''Addressee'' \<mapsto> ascii ''Lipsius'',
          ascii ''Destination'' \<mapsto> ascii ''Leuven'',
          ascii ''Repositories & Versions'' \<mapsto> ascii ''UB'']"
  have row: "sample_row ''x'' \<in> set ?rows" by simp
  have field: "?doc (ascii ''Result_num'') = Some (clean_text (ascii ''x''))"
    by (simp add: ascii_inj)
  have bad: "sample_int (clean_text (ascii ''x'')) = None"
    by (simp add: sample_int_def clean_text_def py_strip_def py_remove_def bullet_def
        py_isspace_def ascii_def)
  have table: "results_table ?page = Some (sample_header # ?rows)"
    by (simp add: sample_page_def)
  have response: "bad_row_server (length (fetched crawl_start))
      (sample_url (int (length (emlo_docs crawl_start)))) =
        Some \<lparr>status_code = 200, content = ?page\<rparr>"
    by (simp add: bad_row_server_def)
  note aborts = unparsable_result_num_aborts [where py_int = sample_int and srv = bad_row_server,
      OF sample_header_parsed row sample_row_dict field bad table crawl_start_unfinished
        sample_crawler_url response]
  from aborts sample_row_ident
  have ve: "make_emlo_doc sample_int sample_crawler (sample_row ''x'') sample_headers =
      Inl ValueError" by blast
  have "map_err (\<lambda>results_row. make_emlo_doc sample_int sample_crawler results_row sample_headers)
      ?rows = Inl ValueError"
    by (simp add: ve sample_row_doc sample_int_digit)
  then have "parse_results_page sample_int sample_crawler ?page = Inl ValueError"
    by (simp add: parse_results_page_def sample_page_def parse_results_rows_def
        sample_header_parsed err_bind_def)
  with aborts have "crawl_while sample_int bad_row_server sample_crawler crawl_start =
      Some (Inl ValueError)" by auto
  with bad ve show ?thesis by (simp add: sample_crawl_collection)
qed

end
